theory Spec2Isabelle
  imports Main
begin

section \<open>The movie watchlist API (\<^verbatim>\<open>src/api/app.py\<close>)\<close>

text \<open>
  The program is a Flask application over one SQL table, \<^verbatim>\<open>movies\<close>. Its state is the
  table; every handler opens one connection scope, executes one statement and turns the
  result into a JSON body and an HTTP status code. The embedding passes the table
  explicitly: a handler takes the store and returns its answer together with the store
  it leaves behind. An exception raised by the store (Flask answers it with a 500) is
  the \<open>Inl\<close> branch of the answer.
\<close>

subsection \<open>The table\<close>

text \<open>
  \<^verbatim>\<open>
  movies = Table("movies", metadata,
      Column("id", Integer, primary_key=True, autoincrement=True),
      Column("title", String(200), nullable=False),
      Column("genre", String(100)),
      Column("status", Boolean, default=False),
      Column("image_url", String(500)))
  \<close>
  A row has the five columns; \<open>None\<close> is SQL NULL. Only \<^verbatim>\<open>title\<close> is declared
  \<^verbatim>\<open>nullable=False\<close>: the constraint is checked by the insert below, not by the type,
  so that what an insert with a null title does is part of the model. The store holds
  the rows in insertion order and the next value of the sequence behind the
  auto-incremented primary key. Ids are unbounded integers here (the 32-bit limit of the
  column is not modelled). The sequence is not transactional: a value drawn from it is
  never given back, whatever becomes of the statement that drew it.
\<close>

record row =
  c_id :: int
  c_title :: "string option"
  c_genre :: "string option"
  c_status :: "bool option"
  c_image_url :: "string option"

record db =
  movies :: "row list"
  movies_id_seq :: int

text \<open>The values of an insert: every column but the generated \<^verbatim>\<open>id\<close>.\<close>

record params =
  v_title :: "string option"
  v_genre :: "string option"
  v_status :: "bool option"
  v_image_url :: "string option"

datatype db_error = IntegrityError | DataError

text \<open>
  \<open>String(n)\<close> is \<^verbatim>\<open>VARCHAR(n)\<close>. The store of the default \<^verbatim>\<open>DATABASE_URL\<close>
  (PostgreSQL) brings every value of the statement to the length of its column before it
  forms a row, and refuses the statement there when a value is too long. A null fits
  every length. One case is left out: a value that is too long by trailing blanks only
  is clipped to \<open>n\<close> characters by PostgreSQL and goes on; \<open>fits\<close> counts it as too
  long like any other. What is stated below of a refused insert therefore names the kind
  of the error only for values within their lengths.
\<close>

definition fits :: "nat \<Rightarrow> string option \<Rightarrow> bool" where
  "fits n v = (case v of None \<Rightarrow> True | Some s \<Rightarrow> length s \<le> n)"

definition too_long :: "params \<Rightarrow> bool" where
  "too_long p = (\<not> (fits 200 (v_title p) \<and> fits 100 (v_genre p) \<and> fits 500 (v_image_url p)))"

subsection \<open>Statements\<close>

text \<open>
  The five statements the program builds, and what \<^verbatim>\<open>conn.execute\<close> does with each.
  The result carries the three things the code reads from a result: the fetched rows,
  \<^verbatim>\<open>inserted_primary_key\<close> and \<^verbatim>\<open>rowcount\<close> (the number of rows the \<^verbatim>\<open>WHERE\<close>
  clause matched). A statement that raises gives the error together with the store as it
  is at that moment, from which the connection scope then undoes what can be undone.

  An insert of one row first has its values brought to length (\<^verbatim>\<open>DataError\<close> when one
  is too long; nothing has happened yet). Then the row is formed, which draws its id
  from the sequence, and the formed row is checked against \<^verbatim>\<open>NOT NULL\<close>
  (\<^verbatim>\<open>IntegrityError\<close> when the title is null; the id drawn for the row is spent).
\<close>

datatype stmt =
    Select
  | Insert params
  | InsertMany "params list"
  | UpdateStatus int bool
  | Delete int

record cursor =
  fetched :: "row list"
  inserted_primary_key :: "int list"
  rowcount :: nat

definition insert_row :: "params \<Rightarrow> db \<Rightarrow> (db_error \<times> db) + (int \<times> db)" where
  "insert_row p d =
     (if too_long p then Inl (DataError, d)
      else
        let i = movies_id_seq d
        in if v_title p = None
           then Inl (IntegrityError, d\<lparr>movies_id_seq := i + 1\<rparr>)
           else Inr (i, \<lparr>movies = movies d @
                           [\<lparr>c_id = i, c_title = v_title p, c_genre = v_genre p,
                             c_status = v_status p, c_image_url = v_image_url p\<rparr>],
                         movies_id_seq = i + 1\<rparr>))"

fun insert_many :: "params list \<Rightarrow> db \<Rightarrow> (db_error \<times> db) + db" where
  "insert_many [] d = Inr d"
| "insert_many (p # ps) d =
     (case insert_row p d of Inl f \<Rightarrow> Inl f | Inr (i, d') \<Rightarrow> insert_many ps d')"

definition matching :: "int \<Rightarrow> db \<Rightarrow> row list" where
  "matching movie_id d = filter (\<lambda>r. c_id r = movie_id) (movies d)"

fun execute :: "stmt \<Rightarrow> db \<Rightarrow> (db_error \<times> db) + (cursor \<times> db)" where
  "execute Select d =
     Inr (\<lparr>fetched = movies d, inserted_primary_key = [], rowcount = 0\<rparr>, d)"
| "execute (Insert p) d =
     (case insert_row p d of
        Inl f \<Rightarrow> Inl f
      | Inr (i, d') \<Rightarrow> Inr (\<lparr>fetched = [], inserted_primary_key = [i], rowcount = 1\<rparr>, d'))"
| "execute (InsertMany ps) d =
     (case insert_many ps d of
        Inl f \<Rightarrow> Inl f
      | Inr d' \<Rightarrow> Inr (\<lparr>fetched = [], inserted_primary_key = [], rowcount = length ps\<rparr>, d'))"
| "execute (UpdateStatus movie_id b) d =
     Inr (\<lparr>fetched = [], inserted_primary_key = [],
           rowcount = length (matching movie_id d)\<rparr>,
          d\<lparr>movies := map (\<lambda>r. if c_id r = movie_id then r\<lparr>c_status := Some b\<rparr> else r)
                           (movies d)\<rparr>)"
| "execute (Delete movie_id) d =
     Inr (\<lparr>fetched = [], inserted_primary_key = [],
           rowcount = length (matching movie_id d)\<rparr>,
          d\<lparr>movies := filter (\<lambda>r. c_id r \<noteq> movie_id) (movies d)\<rparr>)"

subsection \<open>Connection scopes\<close>

text \<open>
  \<^verbatim>\<open>with engine.begin() as conn\<close> commits when the block ends and rolls back when it
  raises. \<^verbatim>\<open>with engine.connect() as conn\<close> never commits: the connection is closed
  with whatever it did undone. Undoing restores the rows of the table; the sequence
  stays where the block left it.
\<close>

definition rollback :: "db \<Rightarrow> db \<Rightarrow> db" where
  "rollback d d' = d\<lparr>movies_id_seq := movies_id_seq d'\<rparr>"

definition engine_begin ::
  "(db \<Rightarrow> (db_error \<times> db) + ('a \<times> db)) \<Rightarrow> db \<Rightarrow> (db_error + 'a) \<times> db" where
  "engine_begin block d =
     (case block d of
        Inl (e, d') \<Rightarrow> (Inl e, rollback d d')
      | Inr (a, d') \<Rightarrow> (Inr a, d'))"

definition engine_connect ::
  "(db \<Rightarrow> (db_error \<times> db) + ('a \<times> db)) \<Rightarrow> db \<Rightarrow> (db_error + 'a) \<times> db" where
  "engine_connect block d =
     (case block d of
        Inl (e, d') \<Rightarrow> (Inl e, rollback d d')
      | Inr (a, d') \<Rightarrow> (Inr a, rollback d d'))"

subsection \<open>JSON\<close>

datatype json =
    JNull
  | JBool bool
  | JInt int
  | JStr string
  | JArr "json list"
  | JObj "(string \<times> json) list"

type_synonym response = "json \<times> nat"

definition json_text :: "string option \<Rightarrow> json" where
  "json_text v = (case v of None \<Rightarrow> JNull | Some s \<Rightarrow> JStr s)"

definition json_bool :: "bool option \<Rightarrow> json" where
  "json_bool v = (case v of None \<Rightarrow> JNull | Some b \<Rightarrow> JBool b)"

text \<open>\<^verbatim>\<open>dict(r)\<close> of a result row, and reading one key of a JSON object.\<close>

definition dict :: "row \<Rightarrow> json" where
  "dict r = JObj [(''id'', JInt (c_id r)),
                  (''title'', json_text (c_title r)),
                  (''genre'', json_text (c_genre r)),
                  (''status'', json_bool (c_status r)),
                  (''image_url'', json_text (c_image_url r))]"

fun json_get :: "string \<Rightarrow> json \<Rightarrow> json option" where
  "json_get k (JObj kvs) = map_of kvs k"
| "json_get k _ = None"

subsection \<open>Startup\<close>

text \<open>
  \<^verbatim>\<open>
  with engine.begin() as conn:
      metadata.create_all(conn)
      result = conn.execute(movies.select())
      if result.first() is None:
          nolan_movies = [...]
          conn.execute(movies.insert(), nolan_movies)
  \<close>
  The store the process finds is \<open>None\<close> when the table does not exist yet.
  \<^verbatim>\<open>create_all\<close> creates a missing table, empty and with a fresh sequence, and leaves
  an existing one alone.
\<close>

definition create_all :: "db option \<Rightarrow> db" where
  "create_all s = (case s of None \<Rightarrow> \<lparr>movies = [], movies_id_seq = 1\<rparr> | Some d \<Rightarrow> d)"

definition first :: "row list \<Rightarrow> row option" where
  "first rs = (case rs of [] \<Rightarrow> None | r # _ \<Rightarrow> Some r)"

definition nolan_movies :: "params list" where
  "nolan_movies =
     [\<lparr>v_title = Some ''Inception'', v_genre = Some ''Sci-Fi'', v_status = Some False,
       v_image_url = Some ''https://images.unsplash.com/photo-1524985069026-dd778a71c7b4''\<rparr>,
      \<lparr>v_title = Some ''Interstellar'', v_genre = Some ''Sci-Fi'', v_status = Some False,
       v_image_url = Some ''https://images.unsplash.com/photo-1462331940025-496dfbfc7564''\<rparr>,
      \<lparr>v_title = Some ''The Dark Knight'', v_genre = Some ''Action'', v_status = Some False,
       v_image_url = Some ''https://images.unsplash.com/photo-1517602302552-471fe67acf66''\<rparr>,
      \<lparr>v_title = Some ''Tenet'', v_genre = Some ''Sci-Fi/Action'', v_status = Some False,
       v_image_url = Some ''https://images.unsplash.com/photo-1522120692562-5d7a83e9f50a''\<rparr>]"

definition startup :: "db option \<Rightarrow> db_error + db" where
  "startup s =
     (let d = create_all s
      in case execute Select d of
           Inl (e, d') \<Rightarrow> Inl e
         | Inr (result, d1) \<Rightarrow>
             if first (fetched result) = None
             then (case execute (InsertMany nolan_movies) d1 of
                     Inl (e, d') \<Rightarrow> Inl e
                   | Inr (res, d2) \<Rightarrow> Inr d2)
             else Inr d1)"

subsection \<open>The handlers\<close>

text \<open>
  The body of a \<^verbatim>\<open>POST /movies\<close>, as the dictionary the handler reads. The three text
  keys hold a string or are absent or null (\<^verbatim>\<open>data.get\<close> gives \<^verbatim>\<open>None\<close> for both); the
  caller may also send a \<^verbatim>\<open>status\<close> of any JSON value. When \<^verbatim>\<open>request.get_json()\<close>
  returns \<open>None\<close> (the body \<^verbatim>\<open>null\<close>), \<^verbatim>\<open>or {}\<close> puts the empty dictionary in its
  place. A request on which \<^verbatim>\<open>get_json\<close> itself raises (what it does with a body that
  is not JSON depends on the version of Flask) never reaches the insert and is not
  modelled.
\<close>

record payload =
  p_title :: "string option"
  p_genre :: "string option"
  p_status :: "json option"
  p_image_url :: "string option"

definition empty_payload :: payload where
  "empty_payload = \<lparr>p_title = None, p_genre = None, p_status = None, p_image_url = None\<rparr>"

definition or_empty :: "payload option \<Rightarrow> payload" where
  "or_empty get_json = (case get_json of None \<Rightarrow> empty_payload | Some j \<Rightarrow> j)"

definition list_movies :: "db \<Rightarrow> (db_error + response) \<times> db" where
  "list_movies =
     engine_connect (\<lambda>d.
       case execute Select d of
         Inl f \<Rightarrow> Inl f
       | Inr (res, d') \<Rightarrow> Inr ((JArr (map dict (fetched res)), 200), d'))"

definition add_movie :: "payload option \<Rightarrow> db \<Rightarrow> (db_error + response) \<times> db" where
  "add_movie get_json =
     (let data = or_empty get_json
      in engine_begin (\<lambda>d.
           case execute (Insert \<lparr>v_title = p_title data, v_genre = p_genre data,
                                 v_status = Some False, v_image_url = p_image_url data\<rparr>) d of
             Inl f \<Rightarrow> Inl f
           | Inr (res, d') \<Rightarrow>
               Inr ((JObj [(''id'', JInt (inserted_primary_key res ! 0))], 201), d')))"

definition mark_watched :: "int \<Rightarrow> db \<Rightarrow> (db_error + response) \<times> db" where
  "mark_watched movie_id =
     engine_begin (\<lambda>d.
       case execute (UpdateStatus movie_id True) d of
         Inl f \<Rightarrow> Inl f
       | Inr (res, d') \<Rightarrow>
           if rowcount res \<noteq> 0
           then Inr ((JObj [(''status'', JStr ''updated'')], 200), d')
           else Inr ((JObj [(''error'', JStr ''not found'')], 404), d'))"

definition delete_movie :: "int \<Rightarrow> db \<Rightarrow> (db_error + response) \<times> db" where
  "delete_movie movie_id =
     engine_begin (\<lambda>d.
       case execute (Delete movie_id) d of
         Inl f \<Rightarrow> Inl f
       | Inr (res, d') \<Rightarrow>
           if rowcount res \<noteq> 0
           then Inr ((JObj [(''deleted'', JInt movie_id)], 200), d')
           else Inr ((JObj [(''error'', JStr ''not found'')], 404), d'))"

subsection \<open>Routes and reachable stores\<close>

text \<open>
  The four routes, and the stores the program can be in: the one a first start leaves
  (no table before it), the one a later start of the process leaves, and the one any
  request leaves.
\<close>

datatype request =
    GET_movies
  | POST_movies "payload option"
  | PUT_movies int
  | DELETE_movies int

fun route :: "request \<Rightarrow> db \<Rightarrow> (db_error + response) \<times> db" where
  "route GET_movies d = list_movies d"
| "route (POST_movies j) d = add_movie j d"
| "route (PUT_movies movie_id) d = mark_watched movie_id d"
| "route (DELETE_movies movie_id) d = delete_movie movie_id d"

inductive reachable :: "db \<Rightarrow> bool" where
  first_start: "startup None = Inr d \<Longrightarrow> reachable d"
| restart: "reachable d \<Longrightarrow> startup (Some d) = Inr d' \<Longrightarrow> reachable d'"
| served: "reachable d \<Longrightarrow> reachable (snd (route r d))"

text \<open>
  A run of the program: requests served one after the other, and restarts of the process
  in between, each on the store the one before left. A start that fails ends the process
  with its transaction rolled back.
\<close>

datatype event = Restart | Request request

fun step :: "event \<Rightarrow> db \<Rightarrow> db" where
  "step Restart d = (case startup (Some d) of Inl e \<Rightarrow> d | Inr d' \<Rightarrow> d')"
| "step (Request r) d = snd (route r d)"

fun run :: "event list \<Rightarrow> db \<Rightarrow> db" where
  "run [] d = d"
| "run (e # es) d = run es (step e d)"

text \<open>The store a first start leaves: the four seed rows, numbered from 1.\<close>

definition seeded :: db where
  "seeded =
     \<lparr>movies =
        [\<lparr>c_id = 1, c_title = Some ''Inception'', c_genre = Some ''Sci-Fi'',
          c_status = Some False,
          c_image_url = Some ''https://images.unsplash.com/photo-1524985069026-dd778a71c7b4''\<rparr>,
         \<lparr>c_id = 2, c_title = Some ''Interstellar'', c_genre = Some ''Sci-Fi'',
          c_status = Some False,
          c_image_url = Some ''https://images.unsplash.com/photo-1462331940025-496dfbfc7564''\<rparr>,
         \<lparr>c_id = 3, c_title = Some ''The Dark Knight'', c_genre = Some ''Action'',
          c_status = Some False,
          c_image_url = Some ''https://images.unsplash.com/photo-1517602302552-471fe67acf66''\<rparr>,
         \<lparr>c_id = 4, c_title = Some ''Tenet'', c_genre = Some ''Sci-Fi/Action'',
          c_status = Some False,
          c_image_url = Some ''https://images.unsplash.com/photo-1522120692562-5d7a83e9f50a''\<rparr>],
      movies_id_seq = 5\<rparr>"

section \<open>Properties\<close>

subsection \<open>What each handler computes\<close>

lemma startup_fresh: "startup None = Inr seeded"
  by (simp add: startup_def create_all_def first_def nolan_movies_def insert_row_def
      too_long_def fits_def seeded_def)

lemma startup_nonempty: "movies d \<noteq> [] \<Longrightarrow> startup (Some d) = Inr d"
  by (cases "movies d") (simp_all add: startup_def create_all_def first_def)

lemma startup_empty:
  "movies d = [] \<Longrightarrow>
   startup (Some d) =
     Inr \<lparr>movies =
        [\<lparr>c_id = movies_id_seq d, c_title = Some ''Inception'', c_genre = Some ''Sci-Fi'',
          c_status = Some False,
          c_image_url = Some ''https://images.unsplash.com/photo-1524985069026-dd778a71c7b4''\<rparr>,
         \<lparr>c_id = movies_id_seq d + 1, c_title = Some ''Interstellar'', c_genre = Some ''Sci-Fi'',
          c_status = Some False,
          c_image_url = Some ''https://images.unsplash.com/photo-1462331940025-496dfbfc7564''\<rparr>,
         \<lparr>c_id = movies_id_seq d + 2, c_title = Some ''The Dark Knight'', c_genre = Some ''Action'',
          c_status = Some False,
          c_image_url = Some ''https://images.unsplash.com/photo-1517602302552-471fe67acf66''\<rparr>,
         \<lparr>c_id = movies_id_seq d + 3, c_title = Some ''Tenet'', c_genre = Some ''Sci-Fi/Action'',
          c_status = Some False,
          c_image_url = Some ''https://images.unsplash.com/photo-1522120692562-5d7a83e9f50a''\<rparr>],
      movies_id_seq = movies_id_seq d + 4\<rparr>"
  by (simp add: startup_def create_all_def first_def nolan_movies_def insert_row_def
      too_long_def fits_def Let_def)

lemma mark_watched_eq:
  "mark_watched movie_id d =
     (Inr (if matching movie_id d \<noteq> []
           then (JObj [(''status'', JStr ''updated'')], 200)
           else (JObj [(''error'', JStr ''not found'')], 404)),
      d\<lparr>movies := map (\<lambda>r. if c_id r = movie_id then r\<lparr>c_status := Some True\<rparr> else r)
                       (movies d)\<rparr>)"
  by (simp add: mark_watched_def engine_begin_def)

lemma delete_movie_eq:
  "delete_movie movie_id d =
     (Inr (if matching movie_id d \<noteq> []
           then (JObj [(''deleted'', JInt movie_id)], 200)
           else (JObj [(''error'', JStr ''not found'')], 404)),
      d\<lparr>movies := filter (\<lambda>r. c_id r \<noteq> movie_id) (movies d)\<rparr>)"
  by (simp add: delete_movie_def engine_begin_def)

lemma add_movie_eq:
  "add_movie j d =
     (if too_long \<lparr>v_title = p_title (or_empty j), v_genre = p_genre (or_empty j),
                   v_status = Some False, v_image_url = p_image_url (or_empty j)\<rparr>
      then (Inl DataError, d)
      else if p_title (or_empty j) = None
      then (Inl IntegrityError, d\<lparr>movies_id_seq := movies_id_seq d + 1\<rparr>)
      else
        (Inr (JObj [(''id'', JInt (movies_id_seq d))], 201),
         \<lparr>movies = movies d @
            [\<lparr>c_id = movies_id_seq d, c_title = p_title (or_empty j),
              c_genre = p_genre (or_empty j), c_status = Some False,
              c_image_url = p_image_url (or_empty j)\<rparr>],
          movies_id_seq = movies_id_seq d + 1\<rparr>))"
  by (simp add: add_movie_def engine_begin_def rollback_def insert_row_def Let_def)

lemma matching_Nil: "(matching movie_id d = []) = (movie_id \<notin> c_id ` set (movies d))"
  by (auto simp: matching_def filter_empty_conv)

lemma list_movies_eq: "list_movies d = (Inr (JArr (map dict (movies d)), 200), d)"
  by (simp add: list_movies_def engine_connect_def rollback_def)

lemma map_c_id_update:
  "map c_id (map (\<lambda>r. if c_id r = i then r\<lparr>c_status := Some b\<rparr> else r) rs) = map c_id rs"
  by (induction rs) auto

lemma route_inv:
  assumes "distinct (map c_id (movies d))"
    and "\<forall>r\<in>set (movies d). c_id r < movies_id_seq d \<and> (c_status r = Some True \<or> c_status r = Some False)"
  shows "distinct (map c_id (movies (snd (route q d))))
         \<and> (\<forall>r\<in>set (movies (snd (route q d))).
               c_id r < movies_id_seq (snd (route q d)) \<and> (c_status r = Some True \<or> c_status r = Some False))"
proof (cases q)
  case GET_movies
  with assms show ?thesis by (simp add: list_movies_eq)
next
  case (POST_movies j)
  with assms show ?thesis
    by (auto simp: add_movie_eq)
next
  case (PUT_movies i)
  with assms show ?thesis
    by (auto simp: mark_watched_eq map_c_id_update simp del: map_map)
next
  case (DELETE_movies i)
  with assms show ?thesis
    by (auto simp: delete_movie_eq distinct_map_filter)
qed

lemma reachable_inv:
  "reachable d \<Longrightarrow>
   distinct (map c_id (movies d))
   \<and> (\<forall>r\<in>set (movies d). c_id r < movies_id_seq d \<and> (c_status r = Some True \<or> c_status r = Some False))"
proof (induction rule: reachable.induct)
  case (first_start d)
  then have "d = seeded" by (simp add: startup_fresh)
  then show ?case by (auto simp: seeded_def)
next
  case (restart d d')
  show ?case
  proof (cases "movies d = []")
    case True
    with restart.hyps(2) show ?thesis by (auto simp: startup_empty)
  next
    case False
    with restart.hyps(2) have "d' = d" by (simp add: startup_nonempty)
    with restart.IH show ?thesis by simp
  qed
next
  case (served d r)
  then show ?case using route_inv[of d r] by blast
qed

subsection \<open>Reachable stores\<close>

lemma step_inv:
  assumes "distinct (map c_id (movies d))"
    and "\<forall>r\<in>set (movies d). c_id r < movies_id_seq d \<and> (c_status r = Some True \<or> c_status r = Some False)"
  shows "distinct (map c_id (movies (step e d)))
         \<and> (\<forall>r\<in>set (movies (step e d)).
               c_id r < movies_id_seq (step e d) \<and> (c_status r = Some True \<or> c_status r = Some False))"
proof (cases e)
  case Restart
  show ?thesis
  proof (cases "movies d = []")
    case True
    with Restart show ?thesis by (auto simp: startup_empty)
  next
    case False
    with Restart assms show ?thesis by (simp add: startup_nonempty)
  qed
next
  case (Request q)
  with assms route_inv[of d q] show ?thesis by simp
qed

lemma step_seq_mono: "movies_id_seq d \<le> movies_id_seq (step e d)"
proof (cases e)
  case Restart
  then show ?thesis
    by (cases "movies d = []") (simp_all add: startup_empty startup_nonempty)
next
  case (Request q)
  then show ?thesis
    by (cases q) (simp_all add: list_movies_eq add_movie_eq mark_watched_eq delete_movie_eq)
qed

lemma run_seq_mono: "movies_id_seq d \<le> movies_id_seq (run es d)"
proof (induction es arbitrary: d)
  case Nil
  show ?case by simp
next
  case (Cons e es)
  have "movies_id_seq d \<le> movies_id_seq (step e d)" by (rule step_seq_mono)
  also have "\<dots> \<le> movies_id_seq (run es (step e d))" by (rule Cons.IH)
  finally show ?case by simp
qed

lemma reachable_step: "reachable d \<Longrightarrow> reachable (step e d)"
proof (cases e)
  case Restart
  assume r: "reachable d"
  show ?thesis
  proof (cases "startup (Some d)")
    case (Inl a)
    with Restart r show ?thesis by simp
  next
    case (Inr d')
    with r have "reachable d'" by (rule reachable.restart)
    with Restart Inr show ?thesis by simp
  qed
next
  case (Request q)
  assume "reachable d"
  then have "reachable (snd (route q d))" by (rule reachable.served)
  with Request show ?thesis by simp
qed

lemma reachable_run: "reachable d \<Longrightarrow> reachable (run es d)"
  by (induction es arbitrary: d) (simp_all add: reachable_step)

lemma reachable_seeded: "reachable seeded"
  by (rule reachable.first_start) (rule startup_fresh)

subsection \<open>The claims\<close>

text \<open>
  C10. Listing is read-only: for every store, \<^verbatim>\<open>list_movies\<close> answers 200 with the rows
  as they are and leaves the store exactly as it found it; the select it executes
  changes nothing either.
\<close>

theorem list_movies_read_only:
  "list_movies d = (Inr (JArr (map dict (movies d)), 200), d)
   \<and> execute Select d = Inr (\<lparr>fetched = movies d, inserted_primary_key = [], rowcount = 0\<rparr>, d)"
  by (simp add: list_movies_def engine_connect_def rollback_def)

text \<open>
  C5. For every id with no matching row, \<^verbatim>\<open>mark_watched\<close> answers the not-found error
  object with status 404 and leaves the store, every row of it, exactly as it was.
\<close>

theorem mark_watched_not_found:
  assumes "movie_id \<notin> c_id ` set (movies d)"
  shows "mark_watched movie_id d = (Inr (JObj [(''error'', JStr ''not found'')], 404), d)"
proof -
  from assms have none: "matching movie_id d = []" by (simp add: matching_Nil)
  from assms have "map (\<lambda>r. if c_id r = movie_id then r\<lparr>c_status := Some True\<rparr> else r)
                     (movies d) = movies d"
    by (intro map_idI) auto
  with none show ?thesis by (simp add: mark_watched_eq)
qed

theorem mark_watched_not_found_witness:
  "99999 \<notin> c_id ` set (movies seeded)
   \<and> mark_watched 99999 seeded = (Inr (JObj [(''error'', JStr ''not found'')], 404), seeded)"
proof -
  have h: "99999 \<notin> c_id ` set (movies seeded)" by (simp add: seeded_def)
  from h mark_watched_not_found [OF h] show ?thesis by simp
qed

text \<open>
  C6. For every id that has a row, \<^verbatim>\<open>mark_watched\<close> answers the acknowledgement with
  status 200, and a second call on the store the first one left answers the same
  acknowledgement again and changes nothing more.
\<close>

theorem mark_watched_idempotent:
  assumes "movie_id \<in> c_id ` set (movies d)"
  shows "fst (mark_watched movie_id d) = Inr (JObj [(''status'', JStr ''updated'')], 200)
         \<and> mark_watched movie_id (snd (mark_watched movie_id d)) =
             (Inr (JObj [(''status'', JStr ''updated'')], 200), snd (mark_watched movie_id d))"
proof -
  let ?f = "\<lambda>r. if c_id r = movie_id then r\<lparr>c_status := Some True\<rparr> else r"
  from assms have some: "matching movie_id d \<noteq> []" by (simp add: matching_Nil)
  have ids: "c_id ` set (map ?f (movies d)) = c_id ` set (movies d)"
    using map_c_id_update[of movie_id True "movies d"]
    by (metis list.set_map)
  with assms have again: "matching movie_id (snd (mark_watched movie_id d)) \<noteq> []"
    by (simp add: matching_Nil mark_watched_eq)
  have twice: "map ?f (map ?f (movies d)) = map ?f (movies d)"
    by (induction "movies d") auto
  from some have first: "fst (mark_watched movie_id d) = Inr (JObj [(''status'', JStr ''updated'')], 200)"
    by (simp add: mark_watched_eq)
  have "mark_watched movie_id (snd (mark_watched movie_id d)) =
          (Inr (JObj [(''status'', JStr ''updated'')], 200), snd (mark_watched movie_id d))"
    using again twice by (simp add: mark_watched_eq)
  with first show ?thesis by simp
qed

theorem mark_watched_idempotent_witness:
  "2 \<in> c_id ` set (movies seeded)
   \<and> fst (mark_watched 2 seeded) = Inr (JObj [(''status'', JStr ''updated'')], 200)
   \<and> fst (mark_watched 2 (snd (mark_watched 2 seeded))) =
         Inr (JObj [(''status'', JStr ''updated'')], 200)
   \<and> snd (mark_watched 2 (snd (mark_watched 2 seeded))) = snd (mark_watched 2 seeded)"
proof -
  have h: "2 \<in> c_id ` set (movies seeded)" by (simp add: seeded_def)
  from mark_watched_idempotent [OF h]
  have a: "fst (mark_watched 2 seeded) = Inr (JObj [(''status'', JStr ''updated'')], 200)"
    and b: "mark_watched 2 (snd (mark_watched 2 seeded)) =
             (Inr (JObj [(''status'', JStr ''updated'')], 200), snd (mark_watched 2 seeded))"
    by blast+
  from b have c: "fst (mark_watched 2 (snd (mark_watched 2 seeded))) =
         Inr (JObj [(''status'', JStr ''updated'')], 200)"
    and d: "snd (mark_watched 2 (snd (mark_watched 2 seeded))) = snd (mark_watched 2 seeded)"
    by simp_all
  from h a c d show ?thesis by (intro conjI)
qed

text \<open>
  C8. For every id that has a row, \<^verbatim>\<open>mark_watched\<close> keeps the number and order of the
  rows and the id sequence; at every position the id, title, genre and image url are the
  ones before, the status is true where the id matches and the old status elsewhere, and
  a row with another id is unchanged as a whole.
\<close>

theorem mark_watched_frame:
  assumes "movie_id \<in> c_id ` set (movies d)"
    and "k < length (movies d)"
  shows "length (movies (snd (mark_watched movie_id d))) = length (movies d)
         \<and> movies_id_seq (snd (mark_watched movie_id d)) = movies_id_seq d
         \<and> c_id (movies (snd (mark_watched movie_id d)) ! k) = c_id (movies d ! k)
         \<and> c_title (movies (snd (mark_watched movie_id d)) ! k) = c_title (movies d ! k)
         \<and> c_genre (movies (snd (mark_watched movie_id d)) ! k) = c_genre (movies d ! k)
         \<and> c_image_url (movies (snd (mark_watched movie_id d)) ! k) = c_image_url (movies d ! k)
         \<and> c_status (movies (snd (mark_watched movie_id d)) ! k) =
             (if c_id (movies d ! k) = movie_id then Some True else c_status (movies d ! k))
         \<and> (c_id (movies d ! k) \<noteq> movie_id \<longrightarrow>
              movies (snd (mark_watched movie_id d)) ! k = movies d ! k)"
  using assms(2) by (simp add: mark_watched_eq)

theorem mark_watched_frame_witness:
  "2 \<in> c_id ` set (movies seeded) \<and> (1::nat) < length (movies seeded)
   \<and> c_status (movies (snd (mark_watched 2 seeded)) ! 1) = Some True
   \<and> c_title (movies (snd (mark_watched 2 seeded)) ! 1) = Some ''Interstellar''
   \<and> movies (snd (mark_watched 2 seeded)) ! 0 = movies seeded ! 0"
proof -
  have h1: "2 \<in> c_id ` set (movies seeded)" by (simp add: seeded_def)
  have h2: "(1::nat) < length (movies seeded)" by (simp add: seeded_def)
  have h3: "(0::nat) < length (movies seeded)" by (simp add: seeded_def)
  from mark_watched_frame [OF h1 h2] mark_watched_frame [OF h1 h3] h1 h2
  show ?thesis by (simp add: seeded_def)
qed

lemma filter_other_id:
  "distinct (map f xs) \<Longrightarrow> r \<in> set xs \<Longrightarrow> filter (\<lambda>x. f x \<noteq> f r) xs = remove1 r xs"
proof (induction xs)
  case Nil
  then show ?case by simp
next
  case (Cons x xs)
  show ?case
  proof (cases "x = r")
    case True
    with Cons.prems have "f r \<notin> f ` set xs" by simp
    then have "\<forall>y\<in>set xs. f y \<noteq> f r" by (metis imageI)
    then have "filter (\<lambda>x. f x \<noteq> f r) xs = xs" by (simp add: filter_id_conv)
    with True show ?thesis by simp
  next
    case False
    with Cons.prems have "r \<in> set xs" and "distinct (map f xs)" by auto
    then have ih: "filter (\<lambda>x. f x \<noteq> f r) xs = remove1 r xs" and "f r \<in> f ` set xs"
      using Cons.IH by auto
    with Cons.prems(1) have "f x \<noteq> f r" by auto
    with ih False show ?thesis by simp
  qed
qed

text \<open>
  C7. In every reachable store and for every row of it, \<^verbatim>\<open>delete_movie\<close> on the row's
  id answers the object echoing the id with status 200 and removes exactly that row; the
  list that follows does not contain the row nor any row of that id; a second delete of
  the same id answers the not-found error object with status 404.
\<close>

theorem delete_movie_existing:
  assumes "reachable d" and "r \<in> set (movies d)"
  shows "delete_movie (c_id r) d =
           (Inr (JObj [(''deleted'', JInt (c_id r))], 200),
            d\<lparr>movies := remove1 r (movies d)\<rparr>)
         \<and> c_id r \<notin> c_id ` set (remove1 r (movies d))
         \<and> list_movies (d\<lparr>movies := remove1 r (movies d)\<rparr>) =
             (Inr (JArr (map dict (remove1 r (movies d))), 200),
              d\<lparr>movies := remove1 r (movies d)\<rparr>)
         \<and> dict r \<notin> set (map dict (remove1 r (movies d)))
         \<and> delete_movie (c_id r) (d\<lparr>movies := remove1 r (movies d)\<rparr>) =
             (Inr (JObj [(''error'', JStr ''not found'')], 404),
              d\<lparr>movies := remove1 r (movies d)\<rparr>)"
proof -
  from assms(1) have dist: "distinct (map c_id (movies d))"
    using reachable_inv by blast
  from dist assms(2)
  have rem: "filter (\<lambda>x. c_id x \<noteq> c_id r) (movies d) = remove1 r (movies d)"
    by (rule filter_other_id)
  from assms(2) have some: "matching (c_id r) d \<noteq> []"
    by (simp add: matching_Nil)
  have gone: "c_id r \<notin> c_id ` set (remove1 r (movies d))"
    unfolding rem[symmetric] by auto
  then have none: "matching (c_id r) (d\<lparr>movies := remove1 r (movies d)\<rparr>) = []"
    by (simp add: matching_Nil)
  have keep: "filter (\<lambda>x. c_id x \<noteq> c_id r) (remove1 r (movies d)) = remove1 r (movies d)"
    unfolding rem[symmetric] by simp
  have a: "delete_movie (c_id r) d =
           (Inr (JObj [(''deleted'', JInt (c_id r))], 200), d\<lparr>movies := remove1 r (movies d)\<rparr>)"
    using some rem by (simp add: delete_movie_eq)
  have b: "delete_movie (c_id r) (d\<lparr>movies := remove1 r (movies d)\<rparr>) =
             (Inr (JObj [(''error'', JStr ''not found'')], 404),
              d\<lparr>movies := remove1 r (movies d)\<rparr>)"
    using none keep by (simp add: delete_movie_eq)
  have c: "dict r \<notin> set (map dict (remove1 r (movies d)))"
  proof
    assume "dict r \<in> set (map dict (remove1 r (movies d)))"
    then obtain x where x: "x \<in> set (remove1 r (movies d))" and e: "dict x = dict r"
      by auto
    from e have "c_id x = c_id r" by (simp add: dict_def)
    with x have "c_id r \<in> c_id ` set (remove1 r (movies d))" by (metis imageI)
    with gone show False by simp
  qed
  from a b c gone show ?thesis by (simp add: list_movies_eq)
qed

theorem delete_movie_existing_witness:
  "reachable seeded
   \<and> movies seeded ! 3 \<in> set (movies seeded)
   \<and> fst (delete_movie 4 seeded) = Inr (JObj [(''deleted'', JInt 4)], 200)
   \<and> map c_id (movies (snd (delete_movie 4 seeded))) = [1, 2, 3]
   \<and> fst (delete_movie 4 (snd (delete_movie 4 seeded))) =
         Inr (JObj [(''error'', JStr ''not found'')], 404)"
proof -
  have h: "movies seeded ! 3 \<in> set (movies seeded)" by (simp add: seeded_def)
  from delete_movie_existing [OF reachable_seeded h] reachable_seeded h
  show ?thesis by (simp add: seeded_def)
qed

lemma same_id_same_row:
  "distinct (map f xs) \<Longrightarrow> x \<in> set xs \<Longrightarrow> y \<in> set xs \<Longrightarrow> f x = f y \<Longrightarrow> x = y"
  by (auto simp: distinct_map dest: inj_onD)

text \<open>
  C9. In every reachable store, whatever happens next (one of the four requests, or a
  restart of the process), a row that is still there afterwards has not gone from
  watched to unwatched: a true status stays true, and a status that changed went from
  false to true.
\<close>

theorem status_never_reset:
  assumes "reachable d" and "r \<in> set (movies d)"
    and "r' \<in> set (movies (step e d))" and "c_id r' = c_id r"
  shows "(c_status r = Some True \<longrightarrow> c_status r' = Some True)
         \<and> (c_status r' \<noteq> c_status r \<longrightarrow> c_status r = Some False \<and> c_status r' = Some True)"
proof -
  from assms(1) have dist: "distinct (map c_id (movies d))"
    and bound: "\<forall>x\<in>set (movies d). c_id x < movies_id_seq d"
    and bool: "\<forall>x\<in>set (movies d). c_status x = Some True \<or> c_status x = Some False"
    using reachable_inv by blast+
  from bool assms(2) have rb: "c_status r = Some True \<or> c_status r = Some False" by blast
  have kept: "r' \<in> set (movies d) \<Longrightarrow> ?thesis"
  proof -
    assume "r' \<in> set (movies d)"
    with dist assms(2,4) have "r' = r" by (metis same_id_same_row)
    then show ?thesis by simp
  qed
  show ?thesis
  proof (cases e)
    case Restart
    from assms(2) have "movies d \<noteq> []" by auto
    with Restart assms(3) have "r' \<in> set (movies d)" by (simp add: startup_nonempty)
    then show ?thesis by (rule kept)
  next
    case (Request q)
    show ?thesis
    proof (cases q)
      case GET_movies
      with Request assms(3) have "r' \<in> set (movies d)" by (simp add: list_movies_eq)
      then show ?thesis by (rule kept)
    next
      case (POST_movies j)
      from bound assms(2,4) have "c_id r' \<noteq> movies_id_seq d" by auto
      with Request POST_movies assms(3) have "r' \<in> set (movies d)"
        by (auto simp: add_movie_eq split: if_splits)
      then show ?thesis by (rule kept)
    next
      case (PUT_movies i)
      with Request assms(3) obtain x where x: "x \<in> set (movies d)"
        and r': "r' = (if c_id x = i then x\<lparr>c_status := Some True\<rparr> else x)"
        by (auto simp: mark_watched_eq)
      from r' have "c_id r' = c_id x" by simp
      with dist assms(2,4) x have "x = r" by (metis same_id_same_row)
      with r' rb show ?thesis by auto
    next
      case (DELETE_movies i)
      with Request assms(3) have "r' \<in> set (movies d)" by (simp add: delete_movie_eq)
      then show ?thesis by (rule kept)
    qed
  qed
qed

theorem status_never_reset_witness:
  "reachable (snd (mark_watched 2 seeded))
   \<and> movies (snd (mark_watched 2 seeded)) ! 1 \<in> set (movies (snd (mark_watched 2 seeded)))
   \<and> c_status (movies (snd (mark_watched 2 seeded)) ! 1) = Some True
   \<and> c_status (movies (step (Request (PUT_movies 2)) (snd (mark_watched 2 seeded))) ! 1)
       = Some True
   \<and> c_status (movies (step (Request (PUT_movies 1)) (snd (mark_watched 2 seeded))) ! 1)
       = Some True"
proof -
  let ?d = "snd (mark_watched 2 seeded)"
  have r: "reachable ?d"
    using reachable.served [OF reachable_seeded, of "PUT_movies 2"] by simp
  have h: "movies ?d ! 1 \<in> set (movies ?d)"
    by (simp add: mark_watched_eq seeded_def)
  have h1: "movies (step (Request (PUT_movies 2)) ?d) ! 1
              \<in> set (movies (step (Request (PUT_movies 2)) ?d))"
    by (simp add: mark_watched_eq seeded_def)
  have h2: "movies (step (Request (PUT_movies 1)) ?d) ! 1
              \<in> set (movies (step (Request (PUT_movies 1)) ?d))"
    by (simp add: mark_watched_eq seeded_def)
  have e1: "c_id (movies (step (Request (PUT_movies 2)) ?d) ! 1) = c_id (movies ?d ! 1)"
    by (simp add: mark_watched_eq seeded_def)
  have e2: "c_id (movies (step (Request (PUT_movies 1)) ?d) ! 1) = c_id (movies ?d ! 1)"
    by (simp add: mark_watched_eq seeded_def)
  have t: "c_status (movies ?d ! 1) = Some True"
    by (simp add: mark_watched_eq seeded_def)
  from status_never_reset [OF r h h1 e1] t
  have c1: "c_status (movies (step (Request (PUT_movies 2)) ?d) ! 1) = Some True"
    by blast
  from status_never_reset [OF r h h2 e2] t
  have c2: "c_status (movies (step (Request (PUT_movies 1)) ?d) ! 1) = Some True"
    by blast
  from r h t c1 c2 show ?thesis by (intro conjI)
qed

lemma add_movie_ok:
  assumes "add_movie j d = (Inr resp, d')"
  shows "resp = (JObj [(''id'', JInt (movies_id_seq d))], 201)
         \<and> d' = \<lparr>movies = movies d @
                    [\<lparr>c_id = movies_id_seq d, c_title = p_title (or_empty j),
                      c_genre = p_genre (or_empty j), c_status = Some False,
                      c_image_url = p_image_url (or_empty j)\<rparr>],
                  movies_id_seq = movies_id_seq d + 1\<rparr>"
  using assms by (auto simp: add_movie_eq split: if_splits)

text \<open>
  C4. From every reachable store and after every run of requests and restarts, an
  \<^verbatim>\<open>add_movie\<close> that succeeds answers 201 with an id that no row has at the moment of
  the insert and that no row of the store the run started from had either (so the id of
  a row deleted in between is not given out again); the ids of the table stay distinct.
\<close>

theorem add_movie_fresh_id:
  assumes "reachable d" and "add_movie j (run es d) = (Inr resp, d')"
  shows "\<exists>i. resp = (JObj [(''id'', JInt i)], 201)
             \<and> i \<notin> c_id ` set (movies d)
             \<and> i \<notin> c_id ` set (movies (run es d))
             \<and> distinct (map c_id (movies d'))"
proof -
  let ?i = "movies_id_seq (run es d)"
  from assms(1) have r: "reachable (run es d)" by (rule reachable_run)
  from assms(1) have old: "\<forall>x\<in>set (movies d). c_id x < movies_id_seq d"
    using reachable_inv by blast
  from r have dist: "distinct (map c_id (movies (run es d)))"
    and now: "\<forall>x\<in>set (movies (run es d)). c_id x < ?i"
    using reachable_inv by blast+
  have mono: "movies_id_seq d \<le> ?i" by (rule run_seq_mono)
  from add_movie_ok [OF assms(2)]
  have resp: "resp = (JObj [(''id'', JInt ?i)], 201)"
    and ids: "map c_id (movies d') = map c_id (movies (run es d)) @ [?i]"
    by simp_all
  from old mono have a: "?i \<notin> c_id ` set (movies d)" by force
  from now have b: "?i \<notin> c_id ` set (movies (run es d))" by force
  from dist b ids have c: "distinct (map c_id (movies d'))" by simp
  from resp a b c show ?thesis by blast
qed

theorem add_movie_fresh_id_witness:
  "reachable seeded
   \<and> add_movie (Some \<lparr>p_title = Some ''Dunkirk'', p_genre = Some ''War'',
                       p_status = None, p_image_url = None\<rparr>)
        (run [Request (DELETE_movies 4)] seeded)
      = (Inr (JObj [(''id'', JInt 5)], 201),
         \<lparr>movies = movies (run [Request (DELETE_movies 4)] seeded) @
            [\<lparr>c_id = 5, c_title = Some ''Dunkirk'', c_genre = Some ''War'',
              c_status = Some False, c_image_url = None\<rparr>],
          movies_id_seq = 6\<rparr>)
   \<and> (\<exists>i. (JObj [(''id'', JInt 5)], 201) = (JObj [(''id'', JInt i)], 201)
            \<and> i \<notin> c_id ` set (movies seeded))"
proof -
  let ?j = "Some \<lparr>p_title = Some ''Dunkirk'', p_genre = Some ''War'',
                   p_status = None, p_image_url = None\<rparr>"
  let ?d' = "\<lparr>movies = movies (run [Request (DELETE_movies 4)] seeded) @
            [\<lparr>c_id = 5, c_title = Some ''Dunkirk'', c_genre = Some ''War'',
              c_status = Some False, c_image_url = None\<rparr>],
          movies_id_seq = 6\<rparr>"
  have h: "add_movie ?j (run [Request (DELETE_movies 4)] seeded)
             = (Inr (JObj [(''id'', JInt 5)], 201), ?d')"
    by (simp add: add_movie_eq delete_movie_eq or_empty_def too_long_def fits_def
        seeded_def)
  from add_movie_fresh_id [OF reachable_seeded h]
  have "\<exists>i. (JObj [(''id'', JInt 5)], 201) = (JObj [(''id'', JInt i)], 201)
            \<and> i \<notin> c_id ` set (movies seeded)"
    by blast
  with reachable_seeded h show ?thesis by (intro conjI)
qed

lemma json_get_id: "json_get ''id'' (dict r) = Some (JInt (c_id r))"
  by (simp add: dict_def)

lemma filter_dict:
  "filter (\<lambda>item. json_get ''id'' item = Some (JInt i)) (map dict rs)
     = map dict (filter (\<lambda>r. c_id r = i) rs)"
  by (induction rs) (simp_all add: json_get_id)

text \<open>
  C3. In every reachable store, an \<^verbatim>\<open>add_movie\<close> that succeeds answers 201 with the new
  id; the table then holds exactly one row of that id, with the title, genre and image
  url of the request and status false, whatever \<^verbatim>\<open>status\<close> the request carried; and the
  list that follows shows exactly one object of that id, with \<^verbatim>\<open>status\<close> false.
\<close>

theorem add_movie_status_false:
  assumes "reachable d" and "add_movie j d = (Inr resp, d')"
  shows "\<exists>i. resp = (JObj [(''id'', JInt i)], 201)
           \<and> filter (\<lambda>r. c_id r = i) (movies d') =
               [\<lparr>c_id = i, c_title = p_title (or_empty j), c_genre = p_genre (or_empty j),
                 c_status = Some False, c_image_url = p_image_url (or_empty j)\<rparr>]
           \<and> (\<exists>items. list_movies d' = (Inr (JArr items, 200), d')
                \<and> filter (\<lambda>item. json_get ''id'' item = Some (JInt i)) items =
                    [JObj [(''id'', JInt i),
                           (''title'', json_text (p_title (or_empty j))),
                           (''genre'', json_text (p_genre (or_empty j))),
                           (''status'', JBool False),
                           (''image_url'', json_text (p_image_url (or_empty j)))]])"
proof -
  let ?i = "movies_id_seq d"
  let ?new = "\<lparr>c_id = ?i, c_title = p_title (or_empty j), c_genre = p_genre (or_empty j),
               c_status = Some False, c_image_url = p_image_url (or_empty j)\<rparr>"
  from assms(1) have "\<forall>x\<in>set (movies d). c_id x < ?i"
    using reachable_inv by blast
  then have none: "filter (\<lambda>r. c_id r = ?i) (movies d) = []"
    by (auto simp: filter_empty_conv)
  from add_movie_ok [OF assms(2)]
  have resp: "resp = (JObj [(''id'', JInt ?i)], 201)"
    and rows: "movies d' = movies d @ [?new]"
    by simp_all
  from rows none have once: "filter (\<lambda>r. c_id r = ?i) (movies d') = [?new]" by simp
  have "filter (\<lambda>item. json_get ''id'' item = Some (JInt ?i)) (map dict (movies d')) = [dict ?new]"
    by (simp only: filter_dict once list.map)
  then have listed: "filter (\<lambda>item. json_get ''id'' item = Some (JInt ?i)) (map dict (movies d')) =
                    [JObj [(''id'', JInt ?i),
                           (''title'', json_text (p_title (or_empty j))),
                           (''genre'', json_text (p_genre (or_empty j))),
                           (''status'', JBool False),
                           (''image_url'', json_text (p_image_url (or_empty j)))]]"
    by (simp add: dict_def json_bool_def)
  have "list_movies d' = (Inr (JArr (map dict (movies d')), 200), d')"
    by (rule list_movies_eq)
  with resp once listed show ?thesis by blast
qed

theorem add_movie_status_false_witness:
  "reachable seeded
   \<and> fst (add_movie (Some \<lparr>p_title = Some ''Dunkirk'', p_genre = Some ''War'',
                            p_status = Some (JBool True), p_image_url = None\<rparr>) seeded)
       = Inr (JObj [(''id'', JInt 5)], 201)
   \<and> filter (\<lambda>r. c_id r = 5)
        (movies (snd (add_movie (Some \<lparr>p_title = Some ''Dunkirk'', p_genre = Some ''War'',
                                        p_status = Some (JBool True), p_image_url = None\<rparr>)
                        seeded)))
       = [\<lparr>c_id = 5, c_title = Some ''Dunkirk'', c_genre = Some ''War'',
           c_status = Some False, c_image_url = None\<rparr>]"
proof -
  let ?j = "Some \<lparr>p_title = Some ''Dunkirk'', p_genre = Some ''War'',
                   p_status = Some (JBool True), p_image_url = None\<rparr>"
  have f: "fst (add_movie ?j seeded) = Inr (JObj [(''id'', JInt 5)], 201)"
    by (simp add: add_movie_eq or_empty_def too_long_def fits_def seeded_def)
  then have h: "add_movie ?j seeded
                  = (Inr (JObj [(''id'', JInt 5)], 201), snd (add_movie ?j seeded))"
    by (simp add: prod_eq_iff)
  from add_movie_status_false [OF reachable_seeded h] obtain i
    where p: "(JObj [(''id'', JInt 5)], 201) = (JObj [(''id'', JInt i)], 201::nat)
           \<and> filter (\<lambda>r. c_id r = i) (movies (snd (add_movie ?j seeded))) =
               [\<lparr>c_id = i, c_title = p_title (or_empty ?j), c_genre = p_genre (or_empty ?j),
                 c_status = Some False, c_image_url = p_image_url (or_empty ?j)\<rparr>]"
    by (elim exE conjE) (rule that, intro conjI)
  from p have "i = 5" by simp
  with p have "filter (\<lambda>r. c_id r = 5) (movies (snd (add_movie ?j seeded)))
          = [\<lparr>c_id = 5, c_title = Some ''Dunkirk'', c_genre = Some ''War'',
              c_status = Some False, c_image_url = None\<rparr>]"
    by (simp add: or_empty_def)
  with reachable_seeded f show ?thesis by (intro conjI)
qed

lemma seeded_titles:
  "map c_title (movies seeded) =
     [Some ''Inception'', Some ''Interstellar'', Some ''The Dark Knight'', Some ''Tenet'']"
  by (simp add: seeded_def)

lemma seeded_statuses:
  "map c_status (movies seeded) = [Some False, Some False, Some False, Some False]"
  by (simp add: seeded_def)

lemma startup_empty_rows:
  assumes "movies d = []"
  shows "case startup (Some d) of
           Inl e \<Rightarrow> False
         | Inr d' \<Rightarrow>
             map c_title (movies d') =
               [Some ''Inception'', Some ''Interstellar'', Some ''The Dark Knight'', Some ''Tenet'']
             \<and> map c_status (movies d') = [Some False, Some False, Some False, Some False]
             \<and> movies d' \<noteq> []"
  by (simp add: startup_empty [OF assms])

text \<open>
  C2. A start that finds the table empty (or finds no table and creates it) succeeds and
  leaves exactly four rows, titled Inception, Interstellar, The Dark Knight and Tenet in
  that order, each with status false; a start on the store it left leaves that store as
  it is. More generally a start on any table that has a row inserts nothing.
\<close>

theorem startup_seeds_once:
  "(movies (create_all s) = [] \<longrightarrow>
      (\<exists>d'. startup s = Inr d'
         \<and> map c_title (movies d') =
             [Some ''Inception'', Some ''Interstellar'', Some ''The Dark Knight'', Some ''Tenet'']
         \<and> map c_status (movies d') = [Some False, Some False, Some False, Some False]
         \<and> startup (Some d') = Inr d'))
   \<and> (movies d \<noteq> [] \<longrightarrow> startup (Some d) = Inr d)"
proof (intro conjI impI)
  assume empty: "movies (create_all s) = []"
  show "\<exists>d'. startup s = Inr d'
         \<and> map c_title (movies d') =
             [Some ''Inception'', Some ''Interstellar'', Some ''The Dark Knight'', Some ''Tenet'']
         \<and> map c_status (movies d') = [Some False, Some False, Some False, Some False]
         \<and> startup (Some d') = Inr d'"
  proof (cases s)
    case None
    have "movies seeded \<noteq> []" by (simp add: seeded_def)
    then have again: "startup (Some seeded) = Inr seeded" by (rule startup_nonempty)
    from None have "startup s = Inr seeded" by (simp only: startup_fresh)
    with again seeded_titles seeded_statuses show ?thesis by (intro exI [of _ seeded] conjI)
  next
    case (Some d0)
    with empty have e: "movies d0 = []" by (simp add: create_all_def)
    from startup_empty_rows [OF e] obtain d' where d': "startup (Some d0) = Inr d'"
      by (cases "startup (Some d0)") simp_all
    from startup_empty_rows [OF e] d'
    have t: "map c_title (movies d') =
             [Some ''Inception'', Some ''Interstellar'', Some ''The Dark Knight'', Some ''Tenet'']"
      and st: "map c_status (movies d') = [Some False, Some False, Some False, Some False]"
      and ne: "movies d' \<noteq> []"
      by simp_all
    from ne have again: "startup (Some d') = Inr d'" by (rule startup_nonempty)
    from Some d' have "startup s = Inr d'" by simp
    with t st again show ?thesis by (intro exI [of _ d'] conjI)
  qed
next
  assume "movies d \<noteq> []"
  then show "startup (Some d) = Inr d" by (rule startup_nonempty)
qed

theorem startup_seeds_once_witness:
  "movies (create_all None) = [] \<and> movies seeded \<noteq> []
   \<and> (\<exists>d'. startup None = Inr d' \<and> startup (Some d') = Inr d')
   \<and> startup None = Inr seeded
   \<and> startup (Some seeded) = Inr seeded"
proof -
  have h1: "movies (create_all None) = []" by (simp add: create_all_def)
  have h2: "movies seeded \<noteq> []" by (simp add: seeded_def)
  from startup_seeds_once [of None seeded]
  have a: "movies (create_all None) = [] \<longrightarrow>
      (\<exists>d'. startup None = Inr d'
         \<and> map c_title (movies d') =
             [Some ''Inception'', Some ''Interstellar'', Some ''The Dark Knight'', Some ''Tenet'']
         \<and> map c_status (movies d') = [Some False, Some False, Some False, Some False]
         \<and> startup (Some d') = Inr d')"
    and b: "movies seeded \<noteq> [] \<longrightarrow> startup (Some seeded) = Inr seeded"
    by (rule conjunct1, rule conjunct2)
  from a h1 obtain d' where p: "startup None = Inr d'
         \<and> map c_title (movies d') =
             [Some ''Inception'', Some ''Interstellar'', Some ''The Dark Knight'', Some ''Tenet'']
         \<and> map c_status (movies d') = [Some False, Some False, Some False, Some False]
         \<and> startup (Some d') = Inr d'"
    by (elim impE exE)
  from p have "startup None = Inr d' \<and> startup (Some d') = Inr d'" by (elim conjE) (intro conjI)
  then have c: "\<exists>d'. startup None = Inr d' \<and> startup (Some d') = Inr d'" by (rule exI)
  from b h2 have e: "startup (Some seeded) = Inr seeded" by (rule mp)
  have f: "startup None = Inr seeded" by (rule startup_fresh)
  from h1 h2 c f e show ?thesis by (intro conjI)
qed




end
